theory Spec2Isabelle
  imports Main "HOL-Library.AList"
begin

section \<open>Python values, exceptions and strings\<close>

text \<open>
  The exceptions of class \<open>Exception\<close> that the modelled code can raise or observe.
  \<open>RetryException\<close> is the generic \<open>Exception('Retry Exception Failed.')\<close> that
  \<open>retry_function\<close> creates before its loop; \<open>OSError\<close> stands for a failure of an
  operating-system call such as \<open>os.listdir\<close>.
\<close>

datatype py_error = RetryException | OSError | AttributeError | IndexError | KeyError | ValueError

text \<open>Python's \<open>str\<close> on an integer: decimal digits, with a minus sign when negative.\<close>

definition digit_char :: "nat \<Rightarrow> char" where
  "digit_char d = ''0123456789'' ! d"

fun str_nat :: "nat \<Rightarrow> string" where
  "str_nat n = (if n < 10 then [digit_char n] else str_nat (n div 10) @ [digit_char (n mod 10)])"

declare str_nat.simps [simp del]

definition str_int :: "int \<Rightarrow> string" where
  "str_int i = (if i < 0 then CHR ''-'' # str_nat (nat (- i)) else str_nat (nat i))"

text \<open>Python's \<open>s[0]\<close> on a string: \<open>IndexError\<close> when the string is empty.\<close>

definition str_index0 :: "string \<Rightarrow> py_error + char" where
  "str_index0 s = (case s of [] \<Rightarrow> Inl IndexError | c # _ \<Rightarrow> Inr c)"

text \<open>
  A patient name is the DICOM person-name string that \<open>pydicom.valuerep.PersonName\<close>
  wraps (\<open>str\<close> of the object gives the string back). The attributes the code reads are
  the first two components of the alphabetic group: components are separated by \<open>^\<close>,
  groups by \<open>=\<close>, and a missing component is the empty string.
\<close>

definition alphabetic_group :: "string \<Rightarrow> string" where
  "alphabetic_group s = takeWhile (\<lambda>c. c \<noteq> CHR ''='') s"

definition family_name :: "string \<Rightarrow> string" where
  "family_name s = takeWhile (\<lambda>c. c \<noteq> CHR ''^'') (alphabetic_group s)"

definition given_name :: "string \<Rightarrow> string" where
  "given_name s =
     takeWhile (\<lambda>c. c \<noteq> CHR ''^'') (drop 1 (dropWhile (\<lambda>c. c \<noteq> CHR ''^'') (alphabetic_group s)))"

section \<open>The record-linkage mapping\<close>

text \<open>
  \<open>patient_info\<close> is the dictionary built by \<open>extract_key_info\<close>: it always has these
  five keys. Accession number and study date are the string values of the DICOM elements.
\<close>

record patient_info =
  PatientID :: string
  PatientName :: string
  AccessionNumber :: string
  StudyDate :: string
  OriginalBaseFolder :: string

text \<open>
  One value of \<open>self.mapping\<close>: the keys \<open>PatientIndex\<close>, \<open>PatientName\<close>,
  \<open>NewPatientName\<close>, \<open>AccessionNumber\<close>, \<open>StudyDate\<close> and \<open>OriginalBaseFolder\<close> of the
  source; the five list-valued keys carry the suffix \<open>_list\<close> here.
\<close>

record mapping_entry =
  PatientIndex :: "int option"
  PatientName_list :: "string list"
  NewPatientName_list :: "string list"
  AccessionNumber_list :: "string list"
  StudyDate_list :: "string list"
  OriginalBaseFolder_list :: "string list"

text \<open>
  \<open>self.mapping\<close> is a Python dictionary: an association list in insertion order, looked up
  with \<open>map_of\<close>; \<open>len(self.mapping)\<close> is its length.
\<close>

type_synonym mapping = "(string \<times> mapping_entry) list"

definition empty_entry :: mapping_entry where
  "empty_entry = \<lparr>PatientIndex = None, PatientName_list = [], NewPatientName_list = [],
     AccessionNumber_list = [], StudyDate_list = [], OriginalBaseFolder_list = []\<rparr>"

fun exists_loop :: "(string \<times> string) list \<Rightarrow> string \<Rightarrow> string \<Rightarrow> bool" where
  "exists_loop [] accession_number study_date = False"
| "exists_loop ((stored_accession_number, stored_study_date) # rest) accession_number study_date =
     (if stored_accession_number = accession_number \<and> stored_study_date = study_date then True
      else exists_loop rest accession_number study_date)"

definition exists_in_mapping :: "mapping \<Rightarrow> patient_info \<Rightarrow> bool" where
  "exists_in_mapping m info =
     (case map_of m (PatientID info) of
        None \<Rightarrow> False
      | Some patient_values \<Rightarrow>
          exists_loop (zip (AccessionNumber_list patient_values) (StudyDate_list patient_values))
            (AccessionNumber info) (StudyDate info))"

definition initialise_mapping_entry :: "mapping \<Rightarrow> string \<Rightarrow> mapping" where
  "initialise_mapping_entry m patient_id =
     (case map_of m patient_id of
        Some _ \<Rightarrow> m
      | None \<Rightarrow> m @ [(patient_id, empty_entry)])"

definition get_patient_index :: "mapping \<Rightarrow> patient_info \<Rightarrow> py_error + int" where
  "get_patient_index m info =
     (case map_of m (PatientID info) of
        None \<Rightarrow> Inl KeyError
      | Some e \<Rightarrow>
          (case PatientIndex e of
             Some i \<Rightarrow> Inr i
           | None \<Rightarrow> Inr (int (length m))))"

text \<open>
  The \<open>try\<close> block of \<open>generate_new_patient_name\<close> evaluates \<open>given_name[0]\<close>, then
  \<open>family_name[0]\<close>; the bare \<open>except\<close> falls back to \<open>family_name[0]\<close> alone, whose
  own failure propagates.
\<close>

definition initials_try :: "string \<Rightarrow> py_error + string" where
  "initials_try patient_name =
     (case str_index0 (given_name patient_name) of
        Inl e \<Rightarrow> Inl e
      | Inr g \<Rightarrow>
          (case str_index0 (family_name patient_name) of
             Inl e \<Rightarrow> Inl e
           | Inr f \<Rightarrow> Inr [g, f]))"

definition generate_new_patient_name :: "string \<Rightarrow> int \<Rightarrow> string \<Rightarrow> py_error + string" where
  "generate_new_patient_name patient_name patient_index study_date =
     (case (case initials_try patient_name of
              Inr new_patient_name \<Rightarrow> Inr new_patient_name
            | Inl _ \<Rightarrow>
                (case str_index0 (family_name patient_name) of
                   Inl e \<Rightarrow> Inl e
                 | Inr f \<Rightarrow> Inr [f])) of
        Inl e \<Rightarrow> Inl e
      | Inr new_patient_name \<Rightarrow>
          Inr (new_patient_name @ str_int patient_index @ ''_'' @ study_date))"

text \<open>The six assignments that close \<open>add_to_mapping\<close>, applied to the patient's entry.\<close>

definition append_encounter :: "mapping_entry \<Rightarrow> int \<Rightarrow> patient_info \<Rightarrow> string \<Rightarrow> mapping_entry" where
  "append_encounter e patient_index info new_patient_name =
     e\<lparr>PatientIndex := Some patient_index,
       PatientName_list := PatientName_list e @ [PatientName info],
       NewPatientName_list := NewPatientName_list e @ [new_patient_name],
       StudyDate_list := StudyDate_list e @ [StudyDate info],
       AccessionNumber_list := AccessionNumber_list e @ [AccessionNumber info],
       OriginalBaseFolder_list := OriginalBaseFolder_list e @ [OriginalBaseFolder info]\<rparr>"

text \<open>
  \<open>add_to_mapping\<close> returns the pseudonym or the exception raised, together with the
  mapping as it is left: the entry created by \<open>initialise_mapping_entry\<close> stays when a
  later statement raises.
\<close>

definition add_to_mapping :: "mapping \<Rightarrow> patient_info \<Rightarrow> (py_error + string) \<times> mapping" where
  "add_to_mapping m info =
     (let m1 = initialise_mapping_entry m (PatientID info);
          patient_id = PatientID info
      in case get_patient_index m1 info of
           Inl e \<Rightarrow> (Inl e, m1)
         | Inr patient_index \<Rightarrow>
             (case generate_new_patient_name (PatientName info) patient_index (StudyDate info) of
                Inl e \<Rightarrow> (Inl e, m1)
              | Inr new_patient_name \<Rightarrow>
                  if exists_in_mapping m1 info then (Inr new_patient_name, m1)
                  else
                    (case map_of m1 patient_id of
                       None \<Rightarrow> (Inl KeyError, m1)
                     | Some e \<Rightarrow>
                         (Inr new_patient_name,
                          AList.update patient_id
                            (append_encounter e patient_index info new_patient_name) m1))))"

text \<open>Resolving a sequence of records one after the other, whatever each call returns.\<close>

fun add_all :: "mapping \<Rightarrow> patient_info list \<Rightarrow> mapping" where
  "add_all m [] = m"
| "add_all m (info # infos) = add_all (snd (add_to_mapping m info)) infos"

section \<open>Retrying wrappers\<close>

text \<open>
  An operation on the unreliable medium is a function of the number of calls made so far:
  \<open>function calls\<close> is what the next call returns or raises. The wrappers thread the
  call counter. \<open>try_function\<close> is the loop of the closure built by \<open>retry_function\<close>:
  the first argument is what is left of \<open>range(times)\<close>, \<open>e\<close> the exception kept so far.
\<close>

fun try_function :: "nat \<Rightarrow> (nat \<Rightarrow> py_error + 'a) \<Rightarrow> py_error \<Rightarrow> nat \<Rightarrow> (py_error + 'a) \<times> nat" where
  "try_function 0 function e calls = (Inl e, calls)"
| "try_function (Suc k) function e calls =
     (case function calls of
        Inr v \<Rightarrow> (Inr v, Suc calls)
      | Inl caught_exception \<Rightarrow> try_function k function caught_exception (Suc calls))"

text \<open>
  The bound \<open>times\<close> (here \<open>times'\<close>) is a Python \<open>int\<close>: \<open>range(times)\<close> is empty when
  it is not positive.
\<close>

definition retry_function :: "int \<Rightarrow> (nat \<Rightarrow> py_error + 'a) \<Rightarrow> nat \<Rightarrow> (py_error + 'a) \<times> nat" where
  "retry_function times' function calls = try_function (nat times') function RetryException calls"

definition repeat_times :: nat where
  "repeat_times = 20"

definition exception_repeat_times :: int where
  "exception_repeat_times = 10"

fun listdir_loop ::
  "nat \<Rightarrow> (nat \<Rightarrow> py_error + string list) \<Rightarrow> int \<Rightarrow> string list \<Rightarrow> nat \<Rightarrow> string list \<times> nat" where
  "listdir_loop 0 os_listdir max_size selected_list calls = (selected_list, calls)"
| "listdir_loop (Suc k) os_listdir max_size selected_list calls =
     (case retry_function exception_repeat_times os_listdir calls of
        (Inr directory_list, calls') \<Rightarrow>
          (let sz = int (length directory_list)
           in if max_size < sz then listdir_loop k os_listdir sz directory_list calls'
              else listdir_loop k os_listdir max_size selected_list calls')
      | (Inl _, calls') \<Rightarrow> listdir_loop k os_listdir max_size selected_list calls')"

text \<open>
  \<open>listdir\<close> returns through its last statement only: the bare \<open>except\<close> of the loop body
  swallows whatever an attempt raises.
\<close>

definition listdir :: "(nat \<Rightarrow> py_error + string list) \<Rightarrow> nat \<Rightarrow> (py_error + string list) \<times> nat" where
  "listdir os_listdir calls =
     (case listdir_loop repeat_times os_listdir (- 1) [] calls of
        (selected_list, calls') \<Rightarrow> (Inr selected_list, calls'))"

text \<open>
  The outcomes of \<open>k\<close> successive attempts (each one a retried listing), in order, and the
  lists of those that succeeded.
\<close>

fun attempts :: "nat \<Rightarrow> (nat \<Rightarrow> py_error + string list) \<Rightarrow> nat \<Rightarrow> (py_error + string list) list" where
  "attempts 0 os_listdir calls = []"
| "attempts (Suc k) os_listdir calls =
     (case retry_function exception_repeat_times os_listdir calls of
        (r, calls') \<Rightarrow> r # attempts k os_listdir calls')"

fun successes :: "(py_error + 'a) list \<Rightarrow> 'a list" where
  "successes [] = []"
| "successes (Inr v # rs) = v # successes rs"
| "successes (Inl e # rs) = successes rs"

section \<open>Scrubbing a DICOM dataset\<close>


















section \<open>Notions used to state the properties\<close>

text \<open>The entry a patient has once \<open>initialise_mapping_entry\<close> has run, and the stored index.\<close>

definition ensured_entry :: "mapping \<Rightarrow> string \<Rightarrow> mapping_entry" where
  "ensured_entry m patient_id = (case map_of m patient_id of None \<Rightarrow> empty_entry | Some e \<Rightarrow> e)"

definition patient_index_of :: "mapping \<Rightarrow> string \<Rightarrow> int option" where
  "patient_index_of m patient_id = (case map_of m patient_id of None \<Rightarrow> None | Some e \<Rightarrow> PatientIndex e)"

text \<open>The five sequences of an entry have one length; every entry of a mapping is so.\<close>

definition entry_parallel :: "mapping_entry \<Rightarrow> bool" where
  "entry_parallel e \<longleftrightarrow>
     length (NewPatientName_list e) = length (PatientName_list e) \<and>
     length (AccessionNumber_list e) = length (PatientName_list e) \<and>
     length (StudyDate_list e) = length (PatientName_list e) \<and>
     length (OriginalBaseFolder_list e) = length (PatientName_list e)"

definition mapping_parallel :: "mapping \<Rightarrow> bool" where
  "mapping_parallel m \<longleftrightarrow> list_all (\<lambda>(patient_id, e). entry_parallel e) m"

definition entry_lengths :: "mapping_entry \<Rightarrow> nat list" where
  "entry_lengths e =
     [length (PatientName_list e), length (NewPatientName_list e), length (AccessionNumber_list e),
      length (StudyDate_list e), length (OriginalBaseFolder_list e)]"


text \<open>
  The index \<open>add_to_mapping\<close> works with: the stored index, or else the length of the
  mapping after \<open>initialise_mapping_entry\<close>.
\<close>

definition candidate_index :: "mapping \<Rightarrow> string \<Rightarrow> int" where
  "candidate_index m patient_id =
     (case PatientIndex (ensured_entry m patient_id) of
        Some i \<Rightarrow> i
      | None \<Rightarrow> int (length (initialise_mapping_entry m patient_id)))"

text \<open>
  Records used as concrete inputs: two encounters of patient P1, one of patient P2, and the
  first encounter of P1 under another patient name.
\<close>

definition info_P1_A1 :: patient_info where
  "info_P1_A1 = \<lparr>PatientID = ''P1'', PatientName = ''Smith^John'', AccessionNumber = ''A1'',
     StudyDate = ''20200101'', OriginalBaseFolder = ''source''\<rparr>"

definition info_P1_A2 :: patient_info where
  "info_P1_A2 = \<lparr>PatientID = ''P1'', PatientName = ''Smith^John'', AccessionNumber = ''A2'',
     StudyDate = ''20200102'', OriginalBaseFolder = ''source''\<rparr>"

definition info_P2_A3 :: patient_info where
  "info_P2_A3 = \<lparr>PatientID = ''P2'', PatientName = ''Doe^Jane'', AccessionNumber = ''A3'',
     StudyDate = ''20200103'', OriginalBaseFolder = ''source''\<rparr>"

definition info_P1_A1_renamed :: patient_info where
  "info_P1_A1_renamed = \<lparr>PatientID = ''P1'', PatientName = ''Jones^Mary'', AccessionNumber = ''A1'',
     StudyDate = ''20200101'', OriginalBaseFolder = ''source''\<rparr>"

text \<open>The mapping after P1/A1, and after P1/A1 then P1/A2, from the empty mapping.\<close>

definition mapping_P1 :: mapping where
  "mapping_P1 = snd (add_to_mapping [] info_P1_A1)"

definition mapping_P1_twice :: mapping where
  "mapping_P1_twice = snd (add_to_mapping mapping_P1 info_P1_A2)"


text \<open>The record of P1/A1 again, read from another base folder.\<close>

definition info_P1_A1_moved :: patient_info where
  "info_P1_A1_moved = \<lparr>PatientID = ''P1'', PatientName = ''Smith^John'', AccessionNumber = ''A1'',
     StudyDate = ''20200101'', OriginalBaseFolder = ''other''\<rparr>"

text \<open>
  The first position of the patient's entry that holds the record's accession number and
  study date, following the order in which \<open>exists_in_mapping\<close> scans the entry.
\<close>

fun find_position :: "(string \<times> string) list \<Rightarrow> string \<Rightarrow> string \<Rightarrow> nat option" where
  "find_position [] accession_number study_date = None"
| "find_position ((stored_accession_number, stored_study_date) # rest) accession_number study_date =
     (if stored_accession_number = accession_number \<and> stored_study_date = study_date then Some 0
      else map_option Suc (find_position rest accession_number study_date))"

definition encounter_position :: "mapping \<Rightarrow> patient_info \<Rightarrow> nat option" where
  "encounter_position m info =
     find_position
       (zip (AccessionNumber_list (ensured_entry m (PatientID info)))
            (StudyDate_list (ensured_entry m (PatientID info))))
       (AccessionNumber info) (StudyDate info)"

text \<open>
  Every stored pseudonym of an entry is the one derived from the name and study date
  stored at its position and the entry's index; an entry without index has no encounter.
\<close>

definition entry_derived :: "mapping_entry \<Rightarrow> bool" where
  "entry_derived e \<longleftrightarrow>
     (case PatientIndex e of
        None \<Rightarrow> PatientName_list e = []
      | Some i \<Rightarrow>
          list_all (\<lambda>(n, d, p). generate_new_patient_name n i d = Inr p)
            (zip (PatientName_list e) (zip (StudyDate_list e) (NewPatientName_list e))))"

definition mapping_derived :: "mapping \<Rightarrow> bool" where
  "mapping_derived m \<longleftrightarrow> list_all (\<lambda>(patient_id, e). entry_derived e) m"

text \<open>The initials \<open>generate_new_patient_name\<close> takes from a name.\<close>

definition initials :: "string \<Rightarrow> string \<times> string" where
  "initials n = (take 1 (given_name n), take 1 (family_name n))"

text \<open>The choice the loop of \<open>listdir\<close> makes between the list kept so far and a new one.\<close>

definition pick_larger :: "'a list \<Rightarrow> 'a list \<Rightarrow> 'a list" where
  "pick_larger selected_list directory_list =
     (if length selected_list < length directory_list then directory_list else selected_list)"

text \<open>
  Listings of three and of seven entries, and a medium whose first four listings have
  3, 3, 7 and 3 entries and whose later listings all fail.
\<close>

definition three_entries :: "string list" where
  "three_entries = [''a'', ''b'', ''c'']"

definition seven_entries :: "string list" where
  "seven_entries = [''a'', ''b'', ''c'', ''d'', ''e'', ''f'', ''g'']"

definition listing_3373 :: "nat \<Rightarrow> py_error + string list" where
  "listing_3373 calls =
     (if calls = 2 then Inr seven_entries
      else if calls < 4 then Inr three_entries
      else Inl OSError)"

definition listing_fails :: "nat \<Rightarrow> py_error + string list" where
  "listing_fails calls = Inl OSError"

text \<open>An operation that fails on its first two calls, and one that always succeeds.\<close>

definition fails_twice :: "nat \<Rightarrow> py_error + nat" where
  "fails_twice calls = (if calls = 0 then Inl OSError else if calls = 1 then Inl KeyError else Inr 7)"

definition succeeds :: "nat \<Rightarrow> py_error + nat" where
  "succeeds calls = Inr 7"




section \<open>Pseudonym derivation\<close>

text \<open>
  C4. The pseudonym is the given-name initial, the family-name initial, the index in
  decimal, an underscore and the study date; without a given-name initial it starts with
  the family-name initial alone; without a family-name initial the derivation raises
  (an \<open>IndexError\<close>) instead of returning.
\<close>

theorem generate_new_patient_name_rule:
  "(given_name n \<noteq> [] \<and> family_name n \<noteq> [] \<longrightarrow>
      generate_new_patient_name n i d =
        Inr ([hd (given_name n)] @ [hd (family_name n)] @ str_int i @ ''_'' @ d)) \<and>
   (given_name n = [] \<and> family_name n \<noteq> [] \<longrightarrow>
      generate_new_patient_name n i d = Inr ([hd (family_name n)] @ str_int i @ ''_'' @ d)) \<and>
   (family_name n = [] \<longrightarrow> generate_new_patient_name n i d = Inl IndexError)"
  by (cases "given_name n"; cases "family_name n")
    (simp_all add: generate_new_patient_name_def initials_try_def str_index0_def)

theorem generate_new_patient_name_rule_witness:
  "generate_new_patient_name ''Smith^John'' 0 ''20200101'' = Inr ''JS0_20200101'' \<and>
   generate_new_patient_name ''Smith'' 12 ''20200101'' = Inr ''S12_20200101'' \<and>
   generate_new_patient_name ''^John'' 0 ''20200101'' = Inl IndexError"
  using generate_new_patient_name_rule [of "''Smith^John''" 0 "''20200101''"]
    generate_new_patient_name_rule [of "''Smith''" 12 "''20200101''"]
    generate_new_patient_name_rule [of "''^John''" 0 "''20200101''"]
  by (simp add: given_name_def family_name_def alphabetic_group_def str_int_def str_nat.simps
      digit_char_def)

section \<open>Basic facts about the mapping operations\<close>

lemma exists_loop_iff: "exists_loop ps a d \<longleftrightarrow> (a, d) \<in> set ps"
  by (induction ps a d rule: exists_loop.induct) auto

lemma map_of_initialise_same:
  "map_of (initialise_mapping_entry m pid) pid = Some (ensured_entry m pid)"
  by (simp add: initialise_mapping_entry_def ensured_entry_def map_add_def split: option.splits)

lemma map_of_initialise_other:
  "k \<noteq> pid \<Longrightarrow> map_of (initialise_mapping_entry m pid) k = map_of m k"
  by (simp add: initialise_mapping_entry_def map_add_def split: option.splits)

lemma initialise_present: "map_of m pid = Some e \<Longrightarrow> initialise_mapping_entry m pid = m"
  by (simp add: initialise_mapping_entry_def)

lemma initialise_idem:
  "initialise_mapping_entry (initialise_mapping_entry m pid) pid = initialise_mapping_entry m pid"
  using map_of_initialise_same initialise_present by blast


lemma exists_initialise:
  "exists_in_mapping (initialise_mapping_entry m (PatientID info)) info = exists_in_mapping m info"
  by (simp add: exists_in_mapping_def map_of_initialise_same ensured_entry_def empty_entry_def
      split: option.splits)

lemma get_patient_index_initialise:
  "get_patient_index (initialise_mapping_entry m (PatientID info)) info =
     Inr (candidate_index m (PatientID info))"
  by (simp add: get_patient_index_def map_of_initialise_same candidate_index_def split: option.splits)

text \<open>\<open>add_to_mapping\<close> in terms of the entry and the index it works with.\<close>

lemma add_to_mapping_eq:
  "add_to_mapping m info =
     (case generate_new_patient_name (PatientName info) (candidate_index m (PatientID info))
             (StudyDate info) of
        Inl err \<Rightarrow> (Inl err, initialise_mapping_entry m (PatientID info))
      | Inr p \<Rightarrow>
          if exists_in_mapping m info then (Inr p, initialise_mapping_entry m (PatientID info))
          else (Inr p, AList.update (PatientID info)
                  (append_encounter (ensured_entry m (PatientID info))
                     (candidate_index m (PatientID info)) info p)
                  (initialise_mapping_entry m (PatientID info))))"
  by (simp add: add_to_mapping_def Let_def get_patient_index_initialise exists_initialise
      map_of_initialise_same split: sum.splits)

lemma ensured_entry_initialise:
  "ensured_entry (initialise_mapping_entry m pid) pid = ensured_entry m pid"
  using map_of_initialise_same [of m pid] by (simp add: ensured_entry_def [of "initialise_mapping_entry m pid"])

lemma candidate_index_initialise:
  "candidate_index (initialise_mapping_entry m pid) pid = candidate_index m pid"
  by (simp add: candidate_index_def ensured_entry_initialise initialise_idem split: option.splits)

lemma exists_in_mapping_iff:
  "exists_in_mapping m info \<longleftrightarrow>
     (AccessionNumber info, StudyDate info) \<in>
       set (zip (AccessionNumber_list (ensured_entry m (PatientID info)))
                (StudyDate_list (ensured_entry m (PatientID info))))"
  by (simp add: exists_in_mapping_def ensured_entry_def exists_loop_iff empty_entry_def split: option.splits)

lemma exists_imp_present: "exists_in_mapping m info \<Longrightarrow> initialise_mapping_entry m (PatientID info) = m"
  by (auto simp: exists_in_mapping_def initialise_mapping_entry_def split: option.splits)

lemma ensured_entry_update: "ensured_entry (AList.update pid e m) pid = e"
  by (simp add: ensured_entry_def update_conv')


lemma patient_index_of_update_same: "patient_index_of (AList.update pid e m) pid = PatientIndex e"
  by (simp add: patient_index_of_def update_conv')

lemma patient_index_of_update_other: "k \<noteq> pid \<Longrightarrow> patient_index_of (AList.update pid e m) k = patient_index_of m k"
  by (simp add: patient_index_of_def update_conv')

lemma patient_index_of_initialise: 
  "patient_index_of m k = Some i \<Longrightarrow> patient_index_of (initialise_mapping_entry m pid) k = Some i"
  by (cases "k = pid") (auto simp: patient_index_of_def map_of_initialise_same map_of_initialise_other ensured_entry_def split: option.splits)

lemma candidate_index_stored:
  "patient_index_of m pid = Some i \<Longrightarrow> candidate_index m pid = i"
  by (auto simp: patient_index_of_def candidate_index_def ensured_entry_def split: option.splits)

lemma index_preserved_step:
  assumes "patient_index_of m pid = Some i"
  shows "patient_index_of (snd (add_to_mapping m info)) pid = Some i"
proof (cases "PatientID info = pid")
  case True
  with assms show ?thesis
    by (simp add: add_to_mapping_eq patient_index_of_initialise patient_index_of_update_same
        candidate_index_stored append_encounter_def split: sum.splits)
next
  case False
  with assms show ?thesis
    by (simp add: add_to_mapping_eq patient_index_of_initialise patient_index_of_update_other
        split: sum.splits)
qed

lemma index_preserved_all:
  "patient_index_of m pid = Some i \<Longrightarrow> patient_index_of (add_all m infos) pid = Some i"
  by (induction infos arbitrary: m) (simp_all add: index_preserved_step)

text \<open>The keys of the mapping stay distinct, as those of a dictionary are.\<close>

lemma distinct_keys_add_to_mapping:
  assumes "distinct (map fst m)"
  shows "distinct (map fst (snd (add_to_mapping m info)))"
proof -
  from assms have "distinct (map fst (initialise_mapping_entry m (PatientID info)))"
    by (auto simp: initialise_mapping_entry_def map_of_eq_None_iff split: option.splits)
  then show ?thesis
    by (simp add: add_to_mapping_eq distinct_update split: sum.splits)
qed

section \<open>Shape of a pseudonym\<close>

lemma digit_char_in: "d < 10 \<Longrightarrow> digit_char d \<in> set ''0123456789''"
  unfolding digit_char_def by (rule nth_mem) simp

lemma str_nat_chars: "set (str_nat n) \<subseteq> set ''0123456789''"
proof (induction n rule: str_nat.induct)
  case (1 n)
  show ?case
  proof (cases "n < 10")
    case True
    then show ?thesis using digit_char_in [of n] by (subst str_nat.simps) simp
  next
    case False
    have "digit_char (n mod 10) \<in> set ''0123456789''" by (rule digit_char_in) simp
    with False 1 show ?thesis by (subst str_nat.simps) simp
  qed
qed

lemma str_nat_nonempty: "str_nat n \<noteq> []"
  by (subst str_nat.simps) simp

lemma str_int_nonempty: "str_int i \<noteq> []"
  by (simp add: str_int_def str_nat_nonempty)

lemma str_int_no_underscore: "CHR ''_'' \<notin> set (str_int i)"
  using str_nat_chars [of "nat i"] str_nat_chars [of "nat (- i)"]
  by (auto simp: str_int_def)

lemma shifted_copy_differs:
  "D \<noteq> [] \<Longrightarrow> u \<notin> set D \<Longrightarrow> D @ u # r1 \<noteq> c # D @ u # r2"
proof (induction D arbitrary: c rule: list_nonempty_induct)
  case (single x)
  then show ?case by auto
next
  case (cons x xs)
  then show ?case by auto
qed

lemma pseudonym_date_determined:
  assumes eq: "X1 @ D @ CHR ''_'' # d1 = X2 @ D @ CHR ''_'' # d2"
    and D: "D \<noteq> []" "CHR ''_'' \<notin> set D"
    and X1: "length X1 = 1 \<or> length X1 = 2" and X2: "length X2 = 1 \<or> length X2 = 2"
  shows "d1 = d2"
proof -
  consider "length X1 = length X2" | "length X1 = 1" "length X2 = 2" | "length X1 = 2" "length X2 = 1"
    using X1 X2 by auto
  then show ?thesis
  proof cases
    case 1
    with eq show ?thesis by simp
  next
    case 2
    then obtain a b c where "X1 = [a]" "X2 = [b, c]"
      by (auto simp: length_Suc_conv numeral_2_eq_2)
    with eq have "D @ CHR ''_'' # d1 = c # D @ CHR ''_'' # d2" by simp
    with shifted_copy_differs [OF D] show ?thesis by blast
  next
    case 3
    then obtain a b c where "X2 = [a]" "X1 = [b, c]"
      by (auto simp: length_Suc_conv numeral_2_eq_2)
    with eq have "D @ CHR ''_'' # d2 = c # D @ CHR ''_'' # d1" by simp
    with shifted_copy_differs [OF D] show ?thesis by blast
  qed
qed

lemma generate_shape:
  assumes "generate_new_patient_name n i d = Inr p"
  shows "\<exists>X. (length X = 1 \<or> length X = 2) \<and> p = X @ str_int i @ CHR ''_'' # d"
  using assms
  by (cases "given_name n"; cases "family_name n")
    (auto simp: generate_new_patient_name_def initials_try_def str_index0_def)

lemma generate_dates_differ:
  assumes "generate_new_patient_name n1 i d1 = Inr p1" "generate_new_patient_name n2 i d2 = Inr p2"
    and "d1 \<noteq> d2"
  shows "p1 \<noteq> p2"
proof
  assume "p1 = p2"
  from generate_shape [OF assms(1)] obtain X1 where
    X1: "length X1 = 1 \<or> length X1 = 2" "p1 = X1 @ str_int i @ CHR ''_'' # d1" by blast
  from generate_shape [OF assms(2)] obtain X2 where
    X2: "length X2 = 1 \<or> length X2 = 2" "p2 = X2 @ str_int i @ CHR ''_'' # d2" by blast
  from \<open>p1 = p2\<close> X1(2) X2(2) have "X1 @ str_int i @ CHR ''_'' # d1 = X2 @ str_int i @ CHR ''_'' # d2"
    by simp
  from pseudonym_date_determined [OF this str_int_nonempty str_int_no_underscore X1(1) X2(1)] assms(3)
  show False by simp
qed

section \<open>Index stability\<close>

lemma add_to_mapping_result:
  "add_to_mapping m info = (Inr p, m') \<Longrightarrow>
     generate_new_patient_name (PatientName info) (candidate_index m (PatientID info)) (StudyDate info) = Inr p"
  by (auto simp: add_to_mapping_eq split: sum.splits if_splits)

lemma fst_add_to_mapping:
  "fst (add_to_mapping m info) =
     generate_new_patient_name (PatientName info) (candidate_index m (PatientID info)) (StudyDate info)"
  by (simp add: add_to_mapping_eq split: sum.splits)

lemma candidate_index_after:
  "candidate_index (snd (add_to_mapping m info)) (PatientID info) = candidate_index m (PatientID info)"
  by (simp add: add_to_mapping_eq candidate_index_initialise split: sum.splits)
    (simp add: candidate_index_def ensured_entry_update append_encounter_def)

lemma appended_index:
  "\<not> exists_in_mapping m info \<Longrightarrow> add_to_mapping m info = (Inr p, m') \<Longrightarrow>
     patient_index_of m' (PatientID info) = Some (candidate_index m (PatientID info))"
  by (auto simp: add_to_mapping_eq patient_index_of_update_same append_encounter_def
      split: sum.splits)

text \<open>A concrete run: two encounters of patient P1 from the empty mapping.\<close>

lemma eval_add_P1_A1: "add_to_mapping [] info_P1_A1 = (Inr ''JS1_20200101'', mapping_P1)"
  by code_simp
lemma eval_add_P1_A2: "add_to_mapping mapping_P1 info_P1_A2 = (Inr ''JS1_20200102'', mapping_P1_twice)"
  by code_simp
lemma eval_index_P1: "patient_index_of mapping_P1 ''P1'' = Some 1"
  by code_simp
lemma eval_P1_facts: "PatientID info_P1_A1 = PatientID info_P1_A2" "PatientID info_P1_A2 = ''P1''"
    "StudyDate info_P1_A1 \<noteq> StudyDate info_P1_A2" "\<not> exists_in_mapping [] info_P1_A1"
    "candidate_index [] (PatientID info_P1_A1) = 1" "PatientID info_P1_A1 = ''P1''"
  by code_simp+

text \<open>
  C8. Once a patient has an index, every later call of \<open>add_to_mapping\<close>, for whatever
  record, leaves it as it is, and a call for that patient derives the pseudonym from it.
  Two records of one patient resolved one after the other are given pseudonyms with one
  and the same index, which is the stored index once the first has been appended; the
  pseudonyms differ when the study dates differ.
\<close>

theorem index_stability:
  "(patient_index_of m pid = Some i \<longrightarrow>
      patient_index_of (add_all m infos) pid = Some i \<and>
      (PatientID info = pid \<longrightarrow>
         fst (add_to_mapping m info) =
           generate_new_patient_name (PatientName info) i (StudyDate info))) \<and>
   (PatientID info1 = PatientID info2 \<and> add_to_mapping m info1 = (Inr p1, m1) \<and>
    add_to_mapping m1 info2 = (Inr p2, m2) \<longrightarrow>
      generate_new_patient_name (PatientName info1) (candidate_index m (PatientID info1))
        (StudyDate info1) = Inr p1 \<and>
      generate_new_patient_name (PatientName info2) (candidate_index m (PatientID info1))
        (StudyDate info2) = Inr p2 \<and>
      (\<not> exists_in_mapping m info1 \<longrightarrow>
         patient_index_of m1 (PatientID info1) = Some (candidate_index m (PatientID info1)) \<and>
         patient_index_of m2 (PatientID info1) = Some (candidate_index m (PatientID info1))) \<and>
      (StudyDate info1 \<noteq> StudyDate info2 \<longrightarrow> p1 \<noteq> p2))"
proof (intro conjI impI)
  assume "patient_index_of m pid = Some i"
  then show "patient_index_of (add_all m infos) pid = Some i" by (rule index_preserved_all)
next
  assume "patient_index_of m pid = Some i" "PatientID info = pid"
  then show "fst (add_to_mapping m info) =
      generate_new_patient_name (PatientName info) i (StudyDate info)"
    by (simp add: fst_add_to_mapping candidate_index_stored)
next
  assume a: "PatientID info1 = PatientID info2 \<and> add_to_mapping m info1 = (Inr p1, m1) \<and>
    add_to_mapping m1 info2 = (Inr p2, m2)"
  then have pid: "PatientID info2 = PatientID info1" and a1: "add_to_mapping m info1 = (Inr p1, m1)"
    and a2: "add_to_mapping m1 info2 = (Inr p2, m2)" by simp_all
  from a1 have m1: "m1 = snd (add_to_mapping m info1)" by simp
  from a1 show g1: "generate_new_patient_name (PatientName info1) (candidate_index m (PatientID info1))
        (StudyDate info1) = Inr p1"
    by (rule add_to_mapping_result)
  from a2 have "generate_new_patient_name (PatientName info2) (candidate_index m1 (PatientID info2))
        (StudyDate info2) = Inr p2"
    by (rule add_to_mapping_result)
  with pid m1 show g2: "generate_new_patient_name (PatientName info2) (candidate_index m (PatientID info1))
        (StudyDate info2) = Inr p2"
    using candidate_index_after [of m info1] by simp
  {
    assume "StudyDate info1 \<noteq> StudyDate info2"
    with g1 g2 show "p1 \<noteq> p2" by (rule generate_dates_differ)
  }
  {
    assume n: "\<not> exists_in_mapping m info1"
    from n a1 show s1: "patient_index_of m1 (PatientID info1) = Some (candidate_index m (PatientID info1))"
      by (rule appended_index)
    from a2 have "m2 = snd (add_to_mapping m1 info2)" by simp
    with s1 show "patient_index_of m2 (PatientID info1) = Some (candidate_index m (PatientID info1))"
      by (simp add: index_preserved_step)
  }
qed

theorem index_stability_witness:
  "patient_index_of mapping_P1 ''P1'' = Some 1 \<and>
   patient_index_of (add_all mapping_P1 [info_P2_A3, info_P1_A2]) ''P1'' = Some 1 \<and>
   fst (add_to_mapping mapping_P1 info_P1_A2) =
     generate_new_patient_name (PatientName info_P1_A2) 1 (StudyDate info_P1_A2) \<and>
   PatientID info_P1_A1 = PatientID info_P1_A2 \<and>
   add_to_mapping [] info_P1_A1 = (Inr ''JS1_20200101'', mapping_P1) \<and>
   add_to_mapping mapping_P1 info_P1_A2 = (Inr ''JS1_20200102'', mapping_P1_twice) \<and>
   StudyDate info_P1_A1 \<noteq> StudyDate info_P1_A2 \<and>
   patient_index_of mapping_P1_twice ''P1'' = Some 1 \<and>
   ''JS1_20200101'' \<noteq> ''JS1_20200102''"
  using index_stability [where m = mapping_P1 and pid = "''P1''" and i = 1
        and infos = "[info_P2_A3, info_P1_A2]" and info = info_P1_A2]
    index_stability [where m = "[]" and ?info1.0 = info_P1_A1 and ?info2.0 = info_P1_A2
        and ?p1.0 = "''JS1_20200101''" and ?m1.0 = mapping_P1
        and ?p2.0 = "''JS1_20200102''" and ?m2.0 = mapping_P1_twice]
    eval_add_P1_A1 eval_add_P1_A2 eval_index_P1 eval_P1_facts
  by simp

section \<open>The parallel sequences\<close>

lemma entry_parallel_empty: "entry_parallel empty_entry"
  by (simp add: entry_parallel_def empty_entry_def)

lemma entry_parallel_append:
  "entry_parallel e \<Longrightarrow> entry_parallel (append_encounter e i info p)"
  by (simp add: entry_parallel_def append_encounter_def)

lemma entry_lengths_append:
  "entry_lengths (append_encounter e i info p) = map Suc (entry_lengths e)"
  by (simp add: entry_lengths_def append_encounter_def)

lemma mapping_parallel_initialise:
  "mapping_parallel m \<Longrightarrow> mapping_parallel (initialise_mapping_entry m pid)"
  by (simp add: mapping_parallel_def initialise_mapping_entry_def entry_parallel_empty
      split: option.splits)

lemma list_all_update:
  "list_all P al \<Longrightarrow> P (k, v) \<Longrightarrow> list_all P (AList.update k v al)"
  by (induction al) auto

lemma mapping_parallel_update:
  "mapping_parallel m \<Longrightarrow> entry_parallel e \<Longrightarrow> mapping_parallel (AList.update pid e m)"
  by (simp add: mapping_parallel_def list_all_update)

lemma mapping_parallel_ensured:
  "mapping_parallel m \<Longrightarrow> entry_parallel (ensured_entry m pid)"
  by (auto simp: mapping_parallel_def ensured_entry_def entry_parallel_empty list_all_iff
      split: option.splits dest!: map_of_SomeD)

lemma mapping_parallel_step:
  "mapping_parallel m \<Longrightarrow> mapping_parallel (snd (add_to_mapping m info))"
  by (simp add: add_to_mapping_eq mapping_parallel_initialise mapping_parallel_update
      entry_parallel_append mapping_parallel_ensured split: sum.splits)

lemma mapping_parallel_all:
  "mapping_parallel m \<Longrightarrow> mapping_parallel (add_all m infos)"
  by (induction infos arbitrary: m) (simp_all add: mapping_parallel_step)

lemma ensured_entry_after:
  "ensured_entry (snd (add_to_mapping m info)) (PatientID info) =
     (case fst (add_to_mapping m info) of
        Inl err \<Rightarrow> ensured_entry m (PatientID info)
      | Inr p \<Rightarrow>
          if exists_in_mapping m info then ensured_entry m (PatientID info)
          else append_encounter (ensured_entry m (PatientID info))
                 (candidate_index m (PatientID info)) info p)"
  by (simp add: add_to_mapping_eq ensured_entry_initialise ensured_entry_update split: sum.splits)

text \<open>
  C9. The five sequences of every entry have one length: this holds of the empty mapping,
  \<open>initialise_mapping_entry\<close> creates an entry with five empty sequences and keeps the
  property, and so does \<open>add_to_mapping\<close>, which either leaves the patient's sequences as
  they are or, when it appends the encounter, makes each of the five one element longer.
  Hence it holds after any sequence of calls from the empty mapping.
\<close>

theorem parallel_sequences_invariant:
  "mapping_parallel [] \<and>
   (map_of m pid = None \<longrightarrow>
      map_of (initialise_mapping_entry m pid) pid = Some empty_entry \<and>
      entry_lengths empty_entry = [0, 0, 0, 0, 0]) \<and>
   (mapping_parallel m \<longrightarrow> mapping_parallel (initialise_mapping_entry m pid)) \<and>
   (mapping_parallel m \<longrightarrow> mapping_parallel (snd (add_to_mapping m info))) \<and>
   (\<not> exists_in_mapping m info \<and> fst (add_to_mapping m info) = Inr p \<longrightarrow>
      entry_lengths (ensured_entry (snd (add_to_mapping m info)) (PatientID info)) =
        map Suc (entry_lengths (ensured_entry m (PatientID info)))) \<and>
   (exists_in_mapping m info \<or> fst (add_to_mapping m info) = Inl err \<longrightarrow>
      ensured_entry (snd (add_to_mapping m info)) (PatientID info) =
        ensured_entry m (PatientID info)) \<and>
   mapping_parallel (add_all [] infos)"
proof (intro conjI impI)
  show "mapping_parallel []" by (simp add: mapping_parallel_def)
  then show "mapping_parallel (add_all [] infos)" by (rule mapping_parallel_all)
  show "entry_lengths empty_entry = [0, 0, 0, 0, 0]"
    by (simp add: entry_lengths_def empty_entry_def)
next
  assume "map_of m pid = None"
  then show "map_of (initialise_mapping_entry m pid) pid = Some empty_entry"
    by (simp add: map_of_initialise_same ensured_entry_def)
next
  assume "mapping_parallel m"
  then show "mapping_parallel (initialise_mapping_entry m pid)"
    by (rule mapping_parallel_initialise)
next
  assume "mapping_parallel m"
  then show "mapping_parallel (snd (add_to_mapping m info))"
    by (rule mapping_parallel_step)
next
  assume "\<not> exists_in_mapping m info \<and> fst (add_to_mapping m info) = Inr p"
  then show "entry_lengths (ensured_entry (snd (add_to_mapping m info)) (PatientID info)) =
        map Suc (entry_lengths (ensured_entry m (PatientID info)))"
    by (simp add: ensured_entry_after entry_lengths_append)
next
  assume "exists_in_mapping m info \<or> fst (add_to_mapping m info) = Inl err"
  then show "ensured_entry (snd (add_to_mapping m info)) (PatientID info) =
        ensured_entry m (PatientID info)"
    by (auto simp: ensured_entry_after split: sum.splits)
qed

lemma eval_parallel_facts:
  "map_of [] ''P1'' = (None :: mapping_entry option)" "mapping_parallel mapping_P1"
  "\<not> exists_in_mapping mapping_P1 info_P1_A2"
  "fst (add_to_mapping mapping_P1 info_P1_A2) = Inr ''JS1_20200102''"
  "entry_lengths (ensured_entry mapping_P1 (PatientID info_P1_A2)) = [1, 1, 1, 1, 1]"
  "snd (add_to_mapping mapping_P1 info_P1_A2) = mapping_P1_twice"
  "exists_in_mapping mapping_P1 info_P1_A1"
  "snd (add_to_mapping mapping_P1 info_P1_A1) = mapping_P1"
  by code_simp+

theorem parallel_sequences_invariant_witness:
  "map_of [] ''P1'' = (None :: mapping_entry option) \<and>
   map_of (initialise_mapping_entry [] ''P1'') ''P1'' = Some empty_entry \<and>
   mapping_parallel mapping_P1 \<and>
   mapping_parallel (initialise_mapping_entry mapping_P1 ''P2'') \<and>
   mapping_parallel mapping_P1_twice \<and>
   \<not> exists_in_mapping mapping_P1 info_P1_A2 \<and>
   entry_lengths (ensured_entry mapping_P1_twice (PatientID info_P1_A2)) = [2, 2, 2, 2, 2] \<and>
   exists_in_mapping mapping_P1 info_P1_A1 \<and>
   ensured_entry (snd (add_to_mapping mapping_P1 info_P1_A1)) (PatientID info_P1_A1) =
     ensured_entry mapping_P1 (PatientID info_P1_A1)"
  using parallel_sequences_invariant [where m = "[]" and pid = "''P1''"]
    parallel_sequences_invariant [where m = mapping_P1 and pid = "''P2''" and info = info_P1_A2
      and p = "''JS1_20200102''"]
    parallel_sequences_invariant [where m = mapping_P1 and info = info_P1_A1]
    eval_parallel_facts
  by simp

section \<open>Sequential index assignment\<close>


   












section \<open>Idempotence\<close>








lemma add_to_mapping_existing:
  assumes "exists_in_mapping m info"
  shows "add_to_mapping m info =
     (generate_new_patient_name (PatientName info) (candidate_index m (PatientID info))
        (StudyDate info), m)"
  using assms by (simp add: add_to_mapping_eq exists_imp_present split: sum.splits)







section \<open>Re-encounter\<close>

lemma generate_initials:
  "initials n = initials n' \<Longrightarrow>
     generate_new_patient_name n i d = generate_new_patient_name n' i d"
  by (cases "given_name n"; cases "family_name n"; cases "given_name n'"; cases "family_name n'")
    (simp_all add: initials_def generate_new_patient_name_def initials_try_def str_index0_def)

lemma find_position_Some:
  "find_position ps a d = Some k \<Longrightarrow> k < length ps \<and> ps ! k = (a, d)"
proof (induction ps a d arbitrary: k rule: find_position.induct)
  case (1 a d)
  then show ?case by simp
next
  case (2 sa sd rest a d)
  then show ?case by (auto split: if_splits)
qed

lemma find_position_exists:
  "(a, d) \<in> set ps \<Longrightarrow> find_position ps a d \<noteq> None"
  by (induction ps a d rule: find_position.induct) auto

lemma entry_derived_empty: "entry_derived empty_entry"
  by (simp add: entry_derived_def empty_entry_def)

lemma entry_derived_append:
  assumes "entry_parallel e" "entry_derived e"
    and "generate_new_patient_name (PatientName info) i (StudyDate info) = Inr p"
    and "PatientIndex e = None \<or> PatientIndex e = Some i"
  shows "entry_derived (append_encounter e i info p)"
proof -
  from assms(1) have len: "length (StudyDate_list e) = length (PatientName_list e)"
    "length (NewPatientName_list e) = length (PatientName_list e)"
    by (simp_all add: entry_parallel_def)
  from assms(4) show ?thesis
  proof
    assume "PatientIndex e = None"
    with assms(2) have "PatientName_list e = []" by (simp add: entry_derived_def)
    with len assms(3) show ?thesis by (simp add: entry_derived_def append_encounter_def)
  next
    assume "PatientIndex e = Some i"
    with assms(2,3) len show ?thesis by (simp add: entry_derived_def append_encounter_def)
  qed
qed

lemma mapping_derived_ensured: "mapping_derived m \<Longrightarrow> entry_derived (ensured_entry m pid)"
  by (auto simp: mapping_derived_def ensured_entry_def entry_derived_empty list_all_iff
      split: option.splits dest!: map_of_SomeD)

lemma candidate_index_cases:
  "PatientIndex (ensured_entry m pid) = None \<or>
   PatientIndex (ensured_entry m pid) = Some (candidate_index m pid)"
  by (simp add: candidate_index_def split: option.splits)

lemma mapping_derived_step:
  assumes "mapping_parallel m" "mapping_derived m"
  shows "mapping_derived (snd (add_to_mapping m info))"
proof -
  have i: "mapping_derived (initialise_mapping_entry m (PatientID info))"
    using assms(2)
    by (simp add: mapping_derived_def initialise_mapping_entry_def entry_derived_empty
        split: option.splits)
  show ?thesis
  proof (cases "generate_new_patient_name (PatientName info) (candidate_index m (PatientID info)) (StudyDate info)")
    case (Inl err)
    with i show ?thesis by (simp add: add_to_mapping_eq)
  next
    case (Inr p)
    have "entry_derived (append_encounter (ensured_entry m (PatientID info))
        (candidate_index m (PatientID info)) info p)"
      by (rule entry_derived_append [OF mapping_parallel_ensured [OF assms(1)]
            mapping_derived_ensured [OF assms(2)] Inr candidate_index_cases])
    with i Inr show ?thesis
      by (simp add: add_to_mapping_eq) (simp add: mapping_derived_def list_all_update)
  qed
qed

lemma mapping_derived_all:
  "mapping_parallel m \<Longrightarrow> mapping_derived m \<Longrightarrow> mapping_derived (add_all m infos)"
  by (induction infos arbitrary: m) (simp_all add: mapping_derived_step mapping_parallel_step)

lemma stored_pseudonym_derived:
  assumes "entry_parallel e" "entry_derived e" "k < length (PatientName_list e)"
  shows "\<exists>i. PatientIndex e = Some i \<and>
           generate_new_patient_name (PatientName_list e ! k) i (StudyDate_list e ! k) =
             Inr (NewPatientName_list e ! k)"
proof (cases "PatientIndex e")
  case None
  with assms(2,3) show ?thesis by (simp add: entry_derived_def)
next
  case (Some i)
  from assms(1) have len: "length (StudyDate_list e) = length (PatientName_list e)"
    "length (NewPatientName_list e) = length (PatientName_list e)"
    by (simp_all add: entry_parallel_def)
  let ?z = "zip (PatientName_list e) (zip (StudyDate_list e) (NewPatientName_list e))"
  from len assms(3) have "k < length ?z" by simp
  then have "?z ! k \<in> set ?z" by (rule nth_mem)
  moreover from len assms(3) have "?z ! k = (PatientName_list e ! k, StudyDate_list e ! k, NewPatientName_list e ! k)"
    by simp
  ultimately show ?thesis using Some assms(2)
    by (auto simp: entry_derived_def list_all_iff)
qed

lemma encounter_position_exists:
  assumes "exists_in_mapping m info"
  shows "\<exists>k. encounter_position m info = Some k \<and>
           k < length (AccessionNumber_list (ensured_entry m (PatientID info))) \<and>
           k < length (StudyDate_list (ensured_entry m (PatientID info))) \<and>
           StudyDate_list (ensured_entry m (PatientID info)) ! k = StudyDate info"
proof -
  let ?z = "zip (AccessionNumber_list (ensured_entry m (PatientID info)))
                (StudyDate_list (ensured_entry m (PatientID info)))"
  from assms have "(AccessionNumber info, StudyDate info) \<in> set ?z"
    by (simp add: exists_in_mapping_iff)
  then obtain k where k: "find_position ?z (AccessionNumber info) (StudyDate info) = Some k"
    using find_position_exists by fastforce
  from find_position_Some [OF k] have "k < length ?z" "?z ! k = (AccessionNumber info, StudyDate info)"
    by simp_all
  with k show ?thesis by (auto simp: encounter_position_def)
qed

text \<open>
  C3, as the code has it. When the encounter is already in the mapping, \<open>add_to_mapping\<close>
  leaves the mapping as it is and returns what the derivation gives for the record's own
  patient name, the patient's index and the study date: a pseudonym, or the exception when
  the name has no family-name initial. In a mapping with parallel sequences whose stored
  pseudonyms were derived in this way, as every mapping built from the empty one is, that
  is the pseudonym stored at the matching position whenever the record's name has the
  initials of the name stored there.
\<close>

theorem reencounter_behaviour:
  assumes "exists_in_mapping m info"
  shows "snd (add_to_mapping m info) = m \<and>
    fst (add_to_mapping m info) =
      generate_new_patient_name (PatientName info) (candidate_index m (PatientID info))
        (StudyDate info) \<and>
    (mapping_parallel m \<and> mapping_derived m \<longrightarrow>
       (\<exists>k. encounter_position m info = Some k \<and>
            k < length (NewPatientName_list (ensured_entry m (PatientID info))) \<and>
            (initials (PatientName info) =
               initials (PatientName_list (ensured_entry m (PatientID info)) ! k) \<longrightarrow>
             fst (add_to_mapping m info) =
               Inr (NewPatientName_list (ensured_entry m (PatientID info)) ! k)))) \<and>
    mapping_parallel (add_all [] infos) \<and> mapping_derived (add_all [] infos)"
proof (intro conjI impI)
  from assms show "snd (add_to_mapping m info) = m" by (simp add: add_to_mapping_existing)
  show r: "fst (add_to_mapping m info) =
      generate_new_patient_name (PatientName info) (candidate_index m (PatientID info))
        (StudyDate info)"
    by (rule fst_add_to_mapping)
  have p0: "mapping_parallel []" and d0: "mapping_derived []"
    by (simp_all add: mapping_parallel_def mapping_derived_def)
  from p0 show "mapping_parallel (add_all [] infos)" by (rule mapping_parallel_all)
  from p0 d0 show "mapping_derived (add_all [] infos)" by (rule mapping_derived_all)
  assume inv: "mapping_parallel m \<and> mapping_derived m"
  let ?e = "ensured_entry m (PatientID info)"
  from inv have par: "entry_parallel ?e" and der: "entry_derived ?e"
    by (simp_all add: mapping_parallel_ensured mapping_derived_ensured)
  from encounter_position_exists [OF assms] obtain k where
    k: "encounter_position m info = Some k" "k < length (StudyDate_list ?e)"
      "StudyDate_list ?e ! k = StudyDate info" by blast
  from par k(2) have kn: "k < length (PatientName_list ?e)" "k < length (NewPatientName_list ?e)"
    by (simp_all add: entry_parallel_def)
  from stored_pseudonym_derived [OF par der kn(1)] k(3) obtain i where
    i: "PatientIndex ?e = Some i"
      "generate_new_patient_name (PatientName_list ?e ! k) i (StudyDate info) =
         Inr (NewPatientName_list ?e ! k)" by auto
  from i(1) have c: "candidate_index m (PatientID info) = i" by (simp add: candidate_index_def)
  have "initials (PatientName info) = initials (PatientName_list ?e ! k) \<longrightarrow>
      fst (add_to_mapping m info) = Inr (NewPatientName_list ?e ! k)"
    using r c i(2) generate_initials [of "PatientName info" "PatientName_list ?e ! k" i "StudyDate info"]
    by simp
  with k(1) kn(2) show "\<exists>k. encounter_position m info = Some k \<and>
            k < length (NewPatientName_list ?e) \<and>
            (initials (PatientName info) = initials (PatientName_list ?e ! k) \<longrightarrow>
             fst (add_to_mapping m info) = Inr (NewPatientName_list ?e ! k))"
    by blast
qed

lemma eval_reencounter_facts:
  "exists_in_mapping mapping_P1 info_P1_A1_moved"
  "mapping_derived mapping_P1"
  "encounter_position mapping_P1 info_P1_A1_moved = Some 0"
  "NewPatientName_list (ensured_entry mapping_P1 (PatientID info_P1_A1_moved)) ! 0 = ''JS1_20200101''"
  "initials (PatientName info_P1_A1_moved) =
     initials (PatientName_list (ensured_entry mapping_P1 (PatientID info_P1_A1_moved)) ! 0)"
  by code_simp+

theorem reencounter_behaviour_witness:
  "exists_in_mapping mapping_P1 info_P1_A1_moved \<and>
   mapping_parallel mapping_P1 \<and> mapping_derived mapping_P1 \<and>
   encounter_position mapping_P1 info_P1_A1_moved = Some 0 \<and>
   initials (PatientName info_P1_A1_moved) =
     initials (PatientName_list (ensured_entry mapping_P1 (PatientID info_P1_A1_moved)) ! 0) \<and>
   snd (add_to_mapping mapping_P1 info_P1_A1_moved) = mapping_P1 \<and>
   fst (add_to_mapping mapping_P1 info_P1_A1_moved) = Inr ''JS1_20200101''"
  using reencounter_behaviour [of mapping_P1 info_P1_A1_moved "[]"]
    eval_reencounter_facts eval_parallel_facts
  by auto

text \<open>
  C3 as stated fails for a record whose patient name differs: P1/A1 was recorded for
  \<open>Smith^John\<close> with the pseudonym \<open>JS1_20200101\<close>; the same encounter under the name
  \<open>Jones^Mary\<close> is answered with \<open>MJ1_20200101\<close>, not with the stored pseudonym.
\<close>

theorem reencounter_behaviour_counterexample:
  "exists_in_mapping mapping_P1 info_P1_A1_renamed \<and>
   encounter_position mapping_P1 info_P1_A1_renamed = Some 0 \<and>
   NewPatientName_list (ensured_entry mapping_P1 (PatientID info_P1_A1_renamed)) ! 0 = ''JS1_20200101'' \<and>
   add_to_mapping mapping_P1 info_P1_A1_renamed = (Inr ''MJ1_20200101'', mapping_P1) \<and>
   fst (add_to_mapping mapping_P1 info_P1_A1_renamed) \<noteq>
     Inr (NewPatientName_list (ensured_entry mapping_P1 (PatientID info_P1_A1_renamed)) ! 0)"
  by code_simp

section \<open>Retrying\<close>

lemma try_function_success:
  assumes "k < n" "\<forall>j<k. isl (function (calls + j))" "function (calls + k) = Inr v"
  shows "try_function n function e calls = (Inr v, calls + k + 1)"
  using assms
proof (induction n arbitrary: k e calls)
  case 0
  then show ?case by simp
next
  case (Suc n)
  show ?case
  proof (cases k)
    case 0
    with Suc.prems show ?thesis by simp
  next
    case (Suc k')
    with Suc.prems have f0: "isl (function calls)" by force
    then obtain e' where e': "function calls = Inl e'" by (cases "function calls") auto
    have "try_function n function e' (Suc calls) = (Inr v, Suc calls + k' + 1)"
    proof (rule Suc.IH)
      from Suc.prems \<open>k = Suc k'\<close> show "k' < n" by simp
      from Suc.prems \<open>k = Suc k'\<close> show "\<forall>j<k'. isl (function (Suc calls + j))"
        by (metis Suc_less_eq add_Suc_shift)
      from Suc.prems \<open>k = Suc k'\<close> show "function (Suc calls + k') = Inr v" by simp
    qed
    with e' \<open>k = Suc k'\<close> show ?thesis by simp
  qed
qed

lemma try_function_exhausted:
  assumes "0 < n" "\<forall>j<n. isl (function (calls + j))"
  shows "try_function n function e calls = (function (calls + n - 1), calls + n)"
  using assms
proof (induction n arbitrary: e calls)
  case 0
  then show ?case by simp
next
  case (Suc n)
  from Suc.prems have "isl (function calls)" by force
  then obtain e' where e': "function calls = Inl e'" by (cases "function calls") auto
  show ?case
  proof (cases n)
    case 0
    with e' show ?thesis by simp
  next
    case (Suc n')
    have "try_function n function e' (Suc calls) = (function (Suc calls + n - 1), Suc calls + n)"
    proof (rule Suc.IH)
      from Suc show "0 < n" by simp
      from Suc.prems show "\<forall>j<n. isl (function (Suc calls + j))"
        by (metis Suc_less_eq add_Suc_shift)
    qed
    with e' Suc show ?thesis by simp
  qed
qed

text \<open>
  C7, as the code has it. \<open>retry_function\<close> makes at most \<open>times\<close> attempts in all: it
  returns the value of the first attempt that succeeds among them; when \<open>times\<close> is
  positive and every one of the \<open>times\<close> attempts fails, the failure of the last attempt is
  raised; when \<open>times\<close> is not positive the operation is not executed and the generic
  exception is raised.
\<close>

theorem retry_semantics:
  "(k < nat n \<and> (\<forall>j<k. isl (function (calls + j))) \<and> function (calls + k) = Inr v \<longrightarrow>
      retry_function n function calls = (Inr v, calls + k + 1)) \<and>
   (0 < n \<and> (\<forall>j<nat n. isl (function (calls + j))) \<longrightarrow>
      retry_function n function calls = (function (calls + nat n - 1), calls + nat n)) \<and>
   (n \<le> 0 \<longrightarrow> retry_function n function calls = (Inl RetryException, calls))"
proof (intro conjI impI)
  assume "k < nat n \<and> (\<forall>j<k. isl (function (calls + j))) \<and> function (calls + k) = Inr v"
  then have "try_function (nat n) function RetryException calls = (Inr v, calls + k + 1)"
    by (intro try_function_success) simp_all
  then show "retry_function n function calls = (Inr v, calls + k + 1)"
    by (simp add: retry_function_def)
next
  assume "0 < n \<and> (\<forall>j<nat n. isl (function (calls + j)))"
  then have "try_function (nat n) function RetryException calls =
      (function (calls + nat n - 1), calls + nat n)"
    by (intro try_function_exhausted) simp_all
  then show "retry_function n function calls = (function (calls + nat n - 1), calls + nat n)"
    by (simp add: retry_function_def)
next
  assume "n \<le> 0"
  then show "retry_function n function calls = (Inl RetryException, calls)"
    by (simp add: retry_function_def)
qed

theorem retry_semantics_witness:
  "(2::nat) < nat 3 \<and> isl (fails_twice 0) \<and> isl (fails_twice 1) \<and> fails_twice 2 = Inr 7 \<and>
   retry_function 3 fails_twice 0 = (Inr 7, 3) \<and>
   (0::int) < 2 \<and> retry_function 2 fails_twice 0 = (Inl KeyError, 2) \<and>
   (0::int) \<le> 0 \<and> retry_function 0 fails_twice 0 = (Inl RetryException, 0)"
proof -
  have h: "\<forall>j<2. isl (fails_twice (0 + j))" "\<forall>j<nat 2. isl (fails_twice (0 + j))"
    by (simp_all add: fails_twice_def)
  have h3: "fails_twice (0 + 2) = Inr 7" "fails_twice (0 + nat 2 - 1) = Inl KeyError"
    "isl (fails_twice 0)" "isl (fails_twice 1)" "fails_twice 2 = Inr 7"
    by (simp_all add: fails_twice_def)
  from retry_semantics [of 2 3 fails_twice 0 7] retry_semantics [of 0 2 fails_twice 0 7]
    retry_semantics [of 0 0 fails_twice 0 7] h h3
  show ?thesis by simp
qed

text \<open>
  C7 as stated fails. With the bound 1 an operation that fails once and would then succeed
  is not retried at all; with the bound 0 an operation that succeeds at once is not
  executed, and the exception raised is not one of the operation.
\<close>

theorem retry_semantics_counterexample:
  "retry_function 1 fails_twice 1 = (Inl KeyError, 2) \<and> fails_twice 2 = Inr 7 \<and>
   retry_function 0 succeeds 0 = (Inl RetryException, 0) \<and> succeeds 0 = Inr 7"
  by code_simp

section \<open>Directory listing\<close>

lemma listdir_loop_fold:
  assumes "(max_size = - 1 \<and> selected_list = []) \<or> max_size = int (length selected_list)"
  shows "fst (listdir_loop k os_listdir max_size selected_list calls) =
     foldl pick_larger selected_list (successes (attempts k os_listdir calls))"
  using assms
proof (induction k arbitrary: max_size selected_list calls)
  case 0
  then show ?case by simp
next
  case (Suc k)
  obtain r calls' where r: "retry_function exception_repeat_times os_listdir calls = (r, calls')"
    by (cases "retry_function exception_repeat_times os_listdir calls")
  show ?case
  proof (cases r)
    case (Inl e)
    with r Suc show ?thesis by simp
  next
    case (Inr directory_list)
    show ?thesis
    proof (cases "max_size < int (length directory_list)")
      case True
      have "fst (listdir_loop k os_listdir (int (length directory_list)) directory_list calls') =
          foldl pick_larger directory_list (successes (attempts k os_listdir calls'))"
        by (rule Suc.IH) simp
      moreover from True Suc.prems have "pick_larger selected_list directory_list = directory_list"
        by (auto simp: pick_larger_def)
      ultimately show ?thesis using r Inr True by simp
    next
      case False
      have "fst (listdir_loop k os_listdir max_size selected_list calls') =
          foldl pick_larger selected_list (successes (attempts k os_listdir calls'))"
        by (rule Suc.IH) (rule Suc.prems)
      moreover from False Suc.prems have "pick_larger selected_list directory_list = selected_list"
        by (auto simp: pick_larger_def)
      ultimately show ?thesis using r Inr False by simp
    qed
  qed
qed

lemma foldl_pick_larger:
  "length s \<le> length (foldl pick_larger s ds) \<and>
   (\<forall>d \<in> set ds. length d \<le> length (foldl pick_larger s ds)) \<and>
   (foldl pick_larger s ds = s \<or> foldl pick_larger s ds \<in> set ds)"
proof (induction ds arbitrary: s)
  case Nil
  then show ?case by simp
next
  case (Cons d ds)
  from Cons.IH [of "pick_larger s d"] show ?case
    by (auto simp: pick_larger_def split: if_splits)
qed

lemma fst_listdir:
  "fst (listdir os_listdir calls) =
     Inr (foldl pick_larger [] (successes (attempts repeat_times os_listdir calls)))"
  using listdir_loop_fold [of "- 1" "[]" repeat_times os_listdir calls]
  by (cases "listdir_loop repeat_times os_listdir (- 1) [] calls") (simp add: listdir_def)

text \<open>
  C6. \<open>listdir\<close> returns a list that is at least as long as the list of every attempt that
  succeeded, and that is itself the list of one of these attempts when there is one: the
  loop keeps the first list of the largest length.
\<close>

theorem listdir_largest:
  "\<exists>l. fst (listdir os_listdir calls) = Inr l \<and>
       l = foldl pick_larger [] (successes (attempts repeat_times os_listdir calls)) \<and>
       (\<forall>d \<in> set (successes (attempts repeat_times os_listdir calls)). length d \<le> length l) \<and>
       (successes (attempts repeat_times os_listdir calls) \<noteq> [] \<longrightarrow>
          l \<in> set (successes (attempts repeat_times os_listdir calls)))"
proof -
  let ?S = "successes (attempts repeat_times os_listdir calls)"
  let ?l = "foldl pick_larger [] ?S"
  from foldl_pick_larger [of "[]" ?S] have
    m: "\<forall>d \<in> set ?S. length d \<le> length ?l" and c: "?l = [] \<or> ?l \<in> set ?S" by simp_all
  have "?l \<in> set ?S" if ne: "?S \<noteq> []"
  proof (cases "?l = []")
    case True
    from ne obtain d where d: "d \<in> set ?S" by (cases ?S) auto
    with m True have "d = []" by auto
    with d True show ?thesis by simp
  next
    case False
    with c show ?thesis by simp
  qed
  with m fst_listdir [of os_listdir calls] show ?thesis by blast
qed

lemma eval_listing_3373:
  "successes (attempts repeat_times listing_3373 0) =
     [three_entries, three_entries, seven_entries, three_entries]"
  "map length [three_entries, three_entries, seven_entries, three_entries] = [3, 3, 7, 3]"
  "foldl pick_larger [] [three_entries, three_entries, seven_entries, three_entries] = seven_entries"
  by code_simp+

theorem listdir_largest_witness:
  "successes (attempts repeat_times listing_3373 0) =
     [three_entries, three_entries, seven_entries, three_entries] \<and>
   map length [three_entries, three_entries, seven_entries, three_entries] = [3, 3, 7, 3] \<and>
   fst (listdir listing_3373 0) = Inr seven_entries \<and>
   seven_entries \<in> set (successes (attempts repeat_times listing_3373 0)) \<and>
   list_all (\<lambda>d. length d \<le> length seven_entries)
     (successes (attempts repeat_times listing_3373 0))"
  using listdir_largest [of listing_3373 0] eval_listing_3373
  by (auto simp: list_all_iff)

lemma retry_all_fail:
  assumes "\<forall>j<10. isl (os_listdir (calls + j))"
  shows "\<exists>e. retry_function exception_repeat_times os_listdir calls = (Inl e, calls + 10)"
proof -
  have "try_function 10 os_listdir RetryException calls = (os_listdir (calls + 10 - 1), calls + 10)"
    by (rule try_function_exhausted) (simp_all add: assms)
  moreover have "isl (os_listdir (calls + 10 - 1))"
    using assms [rule_format, of 9] by (simp add: add.commute)
  ultimately show ?thesis
    by (cases "os_listdir (calls + 10 - 1)") (simp_all add: retry_function_def exception_repeat_times_def)
qed

lemma listdir_loop_all_fail:
  assumes "\<forall>j<10 * k. isl (os_listdir (calls + j))"
  shows "listdir_loop k os_listdir max_size selected_list calls = (selected_list, calls + 10 * k)"
  using assms
proof (induction k arbitrary: calls)
  case 0
  then show ?case by simp
next
  case (Suc k)
  from Suc.prems have "\<forall>j<10. isl (os_listdir (calls + j))" by simp
  from retry_all_fail [OF this] obtain e where
    e: "retry_function exception_repeat_times os_listdir calls = (Inl e, calls + 10)" by blast
  have "\<forall>j<10 * k. isl (os_listdir (calls + 10 + j))"
  proof (intro allI impI)
    fix j assume "j < 10 * k"
    then have "10 + j < 10 * Suc k" by simp
    with Suc.prems have "isl (os_listdir (calls + (10 + j)))" by blast
    then show "isl (os_listdir (calls + 10 + j))" by (simp add: add.assoc)
  qed
  from Suc.IH [OF this] e show ?case by simp
qed

text \<open>
  C10. \<open>listdir\<close> always returns a list, whatever the listings do; when every listing
  fails, all 20 attempts of 10 listings each are made and the empty list is returned.
\<close>

theorem listdir_never_raises:
  "(\<exists>l calls'. listdir os_listdir calls = (Inr l, calls')) \<and>
   ((\<forall>j<200. isl (os_listdir (calls + j))) \<longrightarrow> listdir os_listdir calls = (Inr [], calls + 200))"
proof
  show "\<exists>l calls'. listdir os_listdir calls = (Inr l, calls')"
    by (cases "listdir_loop repeat_times os_listdir (- 1) [] calls") (simp add: listdir_def)
  show "(\<forall>j<200. isl (os_listdir (calls + j))) \<longrightarrow> listdir os_listdir calls = (Inr [], calls + 200)"
  proof
    assume "\<forall>j<200. isl (os_listdir (calls + j))"
    then have "\<forall>j<10 * repeat_times. isl (os_listdir (calls + j))"
      by (simp add: repeat_times_def)
    from listdir_loop_all_fail [OF this] show "listdir os_listdir calls = (Inr [], calls + 200)"
      by (simp add: listdir_def repeat_times_def)
  qed
qed

theorem listdir_never_raises_witness:
  "list_all (\<lambda>j. isl (listing_fails j)) [0..<200] \<and>
   listdir listing_fails 0 = (Inr [], 200) \<and>
   (\<exists>l calls'. listdir listing_3373 0 = (Inr l, calls'))"
  using listdir_never_raises [of listing_fails 0] listdir_never_raises [of listing_3373 0]
  by (simp add: listing_fails_def list_all_iff)

section \<open>Scrubbing\<close>























end
